theory Spec2Isabelle
  imports Main
begin

section \<open>The ability supervisor of src/brain/ability.go\<close>

text \<open>
  The supervisor is concurrent Go code. It is modelled under sequentially consistent
  interleaving: the abstract machine holds the shared heap (the ability record, the
  cancellation contexts made so far), the observable logs (events handed to the
  websocket, calls of \<^verbatim>\<open>Activate\<close> and \<^verbatim>\<open>Run\<close>) and a pool of goroutines, each
  one a program counter into the source. One move of the machine is one access to shared
  state by one goroutine, or one rendezvous on the unbuffered channel.
\<close>

subsection \<open>Data\<close>

text \<open>
  The field \<^verbatim>\<open>a interface{}\<close>: the code looks at the value only through the two type
  assertions of \<^verbatim>\<open>on\<close>. \<open>Activable\<close> and \<open>Runnable\<close> say which of them succeed.
  \<^verbatim>\<open>Run\<close> is code of the ability's owner; \<open>returns_uncancelled\<close> is the single thing the
  model fixes about it: whether it may return while its context is still live.
\<close>

datatype impl = Impl (Activable: bool) (Runnable: bool) (returns_uncancelled: bool)

record AbilityOptions =
  AutoStart :: bool

text \<open>A Go \<^verbatim>\<open>error\<close>: \<open>None\<close> is \<^verbatim>\<open>nil\<close>.\<close>

type_synonym error = "string option"

text \<open>
  The struct \<^verbatim>\<open>ability\<close>. Contexts and channels are heap objects, named by numbers.
  \<open>ctx\<close> is \<open>None\<close> for a nil interface; \<open>cancel\<close> holds the context that the stored
  \<^verbatim>\<open>CancelFunc\<close> cancels, \<open>None\<close> for a nil function. The fields \<^verbatim>\<open>a\<close> and \<^verbatim>\<open>o\<close>
  are \<open>a_field\<close> and \<open>o_field\<close>. The mutex \<^verbatim>\<open>m\<close> is held only inside \<^verbatim>\<open>isOn\<close>,
  around one read, so \<^verbatim>\<open>isOn\<close> is one atomic move and the mutex has no field. The
  websocket \<^verbatim>\<open>ws\<close> is the log \<open>sent\<close> of the machine state.
\<close>

record ability =
  a_field :: impl
  cancel :: "nat option"
  chanDone :: nat
  ctx :: "nat option"
  name :: string
  o_field :: AbilityOptions

text \<open>The calls a controlling goroutine makes, in order.\<close>

datatype call = On | Off

text \<open>
  Program counters. Each names the source statement the goroutine executes next.
  \<^item> \<open>On_*\<close>: \<^verbatim>\<open>on\<close>, lines 67-94, with \<^verbatim>\<open>onActivable\<close> (96-107) and \<^verbatim>\<open>onRunnable\<close>
    (109-115) inlined up to their \<^verbatim>\<open>go\<close> statement. The tuple assignment of line 77
    is two writes, \<^verbatim>\<open>a.ctx\<close> first.
  \<^item> \<open>Off_*\<close>: \<^verbatim>\<open>off\<close>, lines 145-158.
  \<^item> \<open>Wait_*\<close>: \<^verbatim>\<open>wait\<close>, lines 118-142. \<^verbatim>\<open>defer a.cancel()\<close> reads the function value
    when the defer statement runs; the later counters carry it.
  \<^item> \<open>Waiter_*\<close>: the goroutine of \<^verbatim>\<open>onActivable\<close>, lines 102-106.
  \<^item> \<open>Runner_*\<close>: the goroutine of \<^verbatim>\<open>onRunnable\<close>, lines 112-114.
\<close>

datatype pc =
    On_isOn | On_ctx | On_cancel nat | On_go_wait | On_switch
  | On_Activate | On_go_waiter | On_go_runner | On_send
  | Off_isOn | Off_cancel
  | Wait_isOn | Wait_defer | Wait_recv "nat option" | Wait_Err "nat option" error
  | Wait_crashed "nat option" | Wait_stopped "nat option" | Wait_deferred "nat option"
  | Waiter_Done | Waiter_recv nat | Waiter_Activate | Waiter_send
  | Runner_Run | Runner_running "nat option" | Runner_send error
  | Finished

text \<open>A goroutine: where it is, and the calls its function still has to make.\<close>

type_synonym thread = "pc \<times> call list"

text \<open>
  The machine state. \<open>cancelled w c\<close> is \<^verbatim>\<open>c.Err() != nil\<close> for the context \<open>c\<close>;
  \<open>nctx\<close> counts the contexts made by \<^verbatim>\<open>context.WithCancel\<close>. \<open>sent\<close> lists the
  \<^verbatim>\<open>ws.send\<close> calls, \<open>activated\<close> the arguments of the \<^verbatim>\<open>Activate\<close> calls, \<open>ran\<close> the
  context arguments of the \<^verbatim>\<open>Run\<close> calls, each in the order they happened. \<open>panicked\<close>
  is set by a nil dereference; the process is then dead.
\<close>

record world =
  ab :: ability
  cancelled :: "nat \<Rightarrow> bool"
  nctx :: nat
  sent :: "(string \<times> string) list"
  activated :: "bool list"
  ran :: "nat option list"
  threads :: "thread list"
  panicked :: bool

subsection \<open>Collaborators outside src/\<close>

text \<open>
  Modelled from the spec: the three event name constants \<^verbatim>\<open>WebsocketEventNameAbility*\<close>
  are declared outside src/. Section 6 of the spec gives their values.
\<close>

definition WebsocketEventNameAbilityStarted :: string where
  "WebsocketEventNameAbilityStarted = ''ability.started''"

definition WebsocketEventNameAbilityStopped :: string where
  "WebsocketEventNameAbilityStopped = ''ability.stopped''"

definition WebsocketEventNameAbilityCrashed :: string where
  "WebsocketEventNameAbilityCrashed = ''ability.crashed''"

text \<open>
  Modelled from the spec: the method \<^verbatim>\<open>send\<close> of \<^verbatim>\<open>webSocket\<close> is declared outside src/.
  Section 4.3 of the spec: the sink accepts an event name with a payload and does not
  block. Here it appends the pair to the log.
\<close>

definition ws_send :: "string \<Rightarrow> string \<Rightarrow> world \<Rightarrow> world" where
  "ws_send eventName payload w = w\<lparr>sent := sent w @ [(eventName, payload)]\<rparr>"

text \<open>\<^verbatim>\<open>v.Activate(b)\<close>: owner's code; the model records the call.\<close>

definition Activate :: "bool \<Rightarrow> world \<Rightarrow> world" where
  "Activate b w = w\<lparr>activated := activated w @ [b]\<rparr>"

text \<open>\<^verbatim>\<open>context.WithCancel(context.Background())\<close>: a new context, not cancelled.\<close>

definition WithCancel :: "world \<Rightarrow> nat \<times> world" where
  "WithCancel w = (nctx w, w\<lparr>cancelled := (cancelled w)(nctx w := False), nctx := Suc (nctx w)\<rparr>)"

text \<open>
  \<^verbatim>\<open>Err() != nil\<close> of a context value, for the callers that have checked it is not nil
  and for \<^verbatim>\<open>Run\<close>, which is handed whatever \<^verbatim>\<open>a.ctx\<close> holds.
\<close>

fun Err :: "nat option \<Rightarrow> (nat \<Rightarrow> bool) \<Rightarrow> bool" where
  "Err None cs = False"
| "Err (Some c) cs = cs c"

text \<open>A nil dereference or a call of a nil function: the process panics.\<close>

definition panic :: "world \<Rightarrow> world" where
  "panic w = w\<lparr>panicked := True\<rparr>"

text \<open>
  Calling a \<^verbatim>\<open>CancelFunc\<close>: the context is cancelled from then on (calling it again
  changes nothing). Calling a nil function panics.
\<close>

definition call_cancel :: "nat option \<Rightarrow> world \<Rightarrow> world" where
  "call_cancel f w =
     (case f of
        None \<Rightarrow> panic w
      | Some c \<Rightarrow> w\<lparr>cancelled := (cancelled w)(c := True)\<rparr>)"

text \<open>The \<^verbatim>\<open>go\<close> statement: a new goroutine at the given statement.\<close>

definition go :: "pc \<Rightarrow> world \<Rightarrow> world" where
  "go p w = w\<lparr>threads := threads w @ [(p, [])]\<rparr>"

subsection \<open>The functions of ability.go, run by a caller without interruption\<close>

text \<open>\<^verbatim>\<open>newAbility\<close>, lines 44-52; \<open>ch\<close> is the channel that \<^verbatim>\<open>make(chan error)\<close> returns.\<close>

definition newAbility :: "string \<Rightarrow> impl \<Rightarrow> AbilityOptions \<Rightarrow> nat \<Rightarrow> ability" where
  "newAbility n v opts ch =
     \<lparr>a_field = v, cancel = None, chanDone = ch, ctx = None, name = n, o_field = opts\<rparr>"

text \<open>\<^verbatim>\<open>isOnUnsafe\<close>, lines 55-57: \<^verbatim>\<open>a.ctx != nil && a.ctx.Err() == nil\<close>.\<close>

definition isOnUnsafe :: "world \<Rightarrow> bool" where
  "isOnUnsafe w = (ctx (ab w) \<noteq> None \<and> \<not> Err (ctx (ab w)) (cancelled w))"

text \<open>\<^verbatim>\<open>isOn\<close>, lines 60-64: the same read, between Lock and Unlock.\<close>

definition isOn :: "world \<Rightarrow> bool" where
  "isOn w = isOnUnsafe w"

text \<open>Line 77, first write and second write.\<close>

definition set_ctx :: "nat \<Rightarrow> world \<Rightarrow> world" where
  "set_ctx c w = w\<lparr>ab := (ab w)\<lparr>ctx := Some c\<rparr>\<rparr>"

definition set_cancel :: "nat \<Rightarrow> world \<Rightarrow> world" where
  "set_cancel c w = w\<lparr>ab := (ab w)\<lparr>cancel := Some c\<rparr>\<rparr>"

text \<open>\<^verbatim>\<open>onActivable\<close>, lines 97-107, and \<^verbatim>\<open>onRunnable\<close>, lines 110-115.\<close>

definition onActivable :: "world \<Rightarrow> world" where
  "onActivable w = go Waiter_Done (Activate True w)"

definition onRunnable :: "world \<Rightarrow> world" where
  "onRunnable w = go Runner_Run w"

text \<open>\<^verbatim>\<open>on\<close>, lines 67-94.\<close>

definition on :: "world \<Rightarrow> world" where
  "on w =
     (if isOn w then w
      else
        let (c, w1) = WithCancel w;
            w2 = set_cancel c (set_ctx c w1);
            w3 = go Wait_isOn w2;
            w4 = (if Activable (a_field (ab w3)) then onActivable w3
                  else if Runnable (a_field (ab w3)) then onRunnable w3
                  else w3)
        in ws_send WebsocketEventNameAbilityStarted (name (ab w4)) w4)"

text \<open>\<^verbatim>\<open>off\<close>, lines 145-158.\<close>

definition off :: "world \<Rightarrow> world" where
  "off w = (if \<not> isOn w then w else call_cancel (cancel (ab w)) w)"

text \<open>
  The state right after \<^verbatim>\<open>newAbility\<close>: one channel made, no context, nothing logged,
  and the given goroutines.
\<close>

definition boot :: "string \<Rightarrow> impl \<Rightarrow> AbilityOptions \<Rightarrow> thread list \<Rightarrow> world" where
  "boot n v opts ts =
     \<lparr>ab = newAbility n v opts 0, cancelled = (\<lambda>_. False), nctx = 0, sent = [],
      activated = [], ran = [], threads = ts, panicked = False\<rparr>"

subsection \<open>The same code, one shared access at a time\<close>

text \<open>Where a goroutine goes when its current call returns: its next call, or its end.\<close>

fun enter :: "call list \<Rightarrow> thread" where
  "enter [] = (Finished, [])"
| "enter (On # k) = (On_isOn, k)"
| "enter (Off # k) = (Off_isOn, k)"

text \<open>
  One statement of one goroutine: the goroutine's next counter and the new shared state,
  or \<open>None\<close> when the statement cannot run by itself (a channel operation that waits for
  its partner, \<^verbatim>\<open>Run\<close> that has not returned, a goroutine that has ended).
  A method call on a nil \<^verbatim>\<open>a.ctx\<close> panics. In \<^verbatim>\<open>wait\<close> the deferred \<^verbatim>\<open>a.cancel()\<close> still
  runs while the panic unwinds line 128; after a panic nothing moves.
\<close>

fun advance :: "thread \<Rightarrow> world \<Rightarrow> (thread \<times> world) option" where
  "advance (On_isOn, k) w = Some (if isOn w then enter k else (On_ctx, k), w)"
| "advance (On_ctx, k) w = (let (c, w1) = WithCancel w in Some ((On_cancel c, k), set_ctx c w1))"
| "advance (On_cancel c, k) w = Some ((On_go_wait, k), set_cancel c w)"
| "advance (On_go_wait, k) w = Some ((On_switch, k), go Wait_isOn w)"
| "advance (On_switch, k) w =
     Some (if Activable (a_field (ab w)) then (On_Activate, k)
           else if Runnable (a_field (ab w)) then (On_go_runner, k)
           else (On_send, k), w)"
| "advance (On_Activate, k) w = Some ((On_go_waiter, k), Activate True w)"
| "advance (On_go_waiter, k) w = Some ((On_send, k), go Waiter_Done w)"
| "advance (On_go_runner, k) w = Some ((On_send, k), go Runner_Run w)"
| "advance (On_send, k) w =
     Some (enter k, ws_send WebsocketEventNameAbilityStarted (name (ab w)) w)"
| "advance (Off_isOn, k) w = Some (if \<not> isOn w then enter k else (Off_cancel, k), w)"
| "advance (Off_cancel, k) w = Some (enter k, call_cancel (cancel (ab w)) w)"
| "advance (Wait_isOn, k) w = Some (if \<not> isOn w then enter k else (Wait_defer, k), w)"
| "advance (Wait_defer, k) w = Some ((Wait_recv (cancel (ab w)), k), w)"
| "advance (Wait_recv f, k) w = None"
| "advance (Wait_Err f err, k) w =
     (case ctx (ab w) of
        None \<Rightarrow> Some ((Finished, k), panic (call_cancel f w))
      | Some c \<Rightarrow> Some (if \<not> cancelled w c then (Wait_crashed f, k) else (Wait_stopped f, k), w))"
| "advance (Wait_crashed f, k) w =
     Some ((Wait_deferred f, k), ws_send WebsocketEventNameAbilityCrashed (name (ab w)) w)"
| "advance (Wait_stopped f, k) w =
     Some ((Wait_deferred f, k), ws_send WebsocketEventNameAbilityStopped (name (ab w)) w)"
| "advance (Wait_deferred f, k) w = Some (enter k, call_cancel f w)"
| "advance (Waiter_Done, k) w =
     (case ctx (ab w) of
        None \<Rightarrow> Some ((Finished, k), panic w)
      | Some c \<Rightarrow> Some ((Waiter_recv c, k), w))"
| "advance (Waiter_recv c, k) w = (if cancelled w c then Some ((Waiter_Activate, k), w) else None)"
| "advance (Waiter_Activate, k) w = Some ((Waiter_send, k), Activate False w)"
| "advance (Waiter_send, k) w = None"
| "advance (Runner_Run, k) w =
     Some ((Runner_running (ctx (ab w)), k), w\<lparr>ran := ran w @ [ctx (ab w)]\<rparr>)"
| "advance (Runner_running c, k) w = None"
| "advance (Runner_send err, k) w = None"
| "advance (Finished, k) w = None"

text \<open>
  The two ends of \<^verbatim>\<open>a.chanDone\<close>. A goroutine at a send statement offers a value
  (line 105 offers nil, line 113 what \<^verbatim>\<open>Run\<close> returned); the watcher at line 128 takes it.
  The field \<^verbatim>\<open>chanDone\<close> is written by \<^verbatim>\<open>newAbility\<close> only, so every send and every
  receive of one ability is on the same channel.
\<close>

fun offers :: "pc \<Rightarrow> error option" where
  "offers Waiter_send = Some None"
| "offers (Runner_send err) = Some err"
| "offers _ = None"

fun takes :: "pc \<Rightarrow> error \<Rightarrow> pc option" where
  "takes (Wait_recv f) err = Some (Wait_Err f err)"
| "takes _ err = None"

text \<open>When \<^verbatim>\<open>Run\<close>, called with context \<open>c\<close>, may return.\<close>

definition may_return :: "world \<Rightarrow> nat option \<Rightarrow> bool" where
  "may_return w c =
     (returns_uncancelled (a_field (ab w)) \<or> Err c (cancelled w))"

fun running :: "pc \<Rightarrow> nat option option" where
  "running (Runner_running c) = Some c"
| "running _ = None"

definition put :: "nat \<Rightarrow> thread \<Rightarrow> world \<Rightarrow> world" where
  "put i t w = w\<lparr>threads := (threads w)[i := t]\<rparr>"

text \<open>
  The moves of the machine: goroutine \<open>i\<close> runs its statement; sender \<open>s\<close> and receiver
  \<open>r\<close> meet on the unbuffered channel; \<^verbatim>\<open>Run\<close> of goroutine \<open>i\<close> returns \<open>err\<close>.
  \<open>None\<close>: the move is not possible in this state. After a panic nothing moves.
\<close>

datatype move = Step nat | Handoff nat nat | Return nat error

fun step :: "move \<Rightarrow> world \<Rightarrow> world option" where
  "step (Step i) w =
     (if panicked w \<or> \<not> i < length (threads w) then None
      else case advance (threads w ! i) w of
             None \<Rightarrow> None
           | Some (t, w') \<Rightarrow> Some (put i t w'))"
| "step (Handoff s r) w =
     (if panicked w \<or> \<not> s < length (threads w) \<or> \<not> r < length (threads w) then None
      else case offers (fst (threads w ! s)) of
             None \<Rightarrow> None
           | Some err \<Rightarrow>
               (case takes (fst (threads w ! r)) err of
                  None \<Rightarrow> None
                | Some p \<Rightarrow>
                    Some (put r (p, snd (threads w ! r)) (put s (enter (snd (threads w ! s))) w))))"
| "step (Return i err) w =
     (if panicked w \<or> \<not> i < length (threads w) then None
      else case running (fst (threads w ! i)) of
             None \<Rightarrow> None
           | Some c \<Rightarrow>
               if may_return w c then Some (put i (Runner_send err, snd (threads w ! i)) w)
               else None)"

text \<open>A schedule: moves in order. \<open>None\<close> when some move of it is not possible.\<close>

fun exec :: "move list \<Rightarrow> world \<Rightarrow> world option" where
  "exec [] w = Some w"
| "exec (m # ms) w = (case step m w of None \<Rightarrow> None | Some w' \<Rightarrow> exec ms w')"

subsection \<open>One controlling goroutine: what stays true\<close>

text \<open>
  The predicates of this subsection describe the states that one controlling goroutine
  (goroutine 0, which calls \<^verbatim>\<open>on\<close> and \<^verbatim>\<open>off\<close> one after the other) can bring about
  together with the goroutines these calls start. They are used in proofs only.

  \<open>goroutine\<close>: the statement belongs to a function started by a \<^verbatim>\<open>go\<close> statement of
  ability.go. \<open>spawned\<close>: such a goroutine, which makes no call of \<^verbatim>\<open>on\<close> or \<^verbatim>\<open>off\<close>
  itself. \<open>controller\<close>: a goroutine inside or between calls of \<^verbatim>\<open>on\<close> and \<^verbatim>\<open>off\<close>.
  \<open>solo\<close>: goroutine 0 is the controller and all others are spawned.
\<close>

fun goroutine :: "pc \<Rightarrow> bool" where
  "goroutine On_isOn = False"
| "goroutine On_ctx = False"
| "goroutine (On_cancel c) = False"
| "goroutine On_go_wait = False"
| "goroutine On_switch = False"
| "goroutine On_Activate = False"
| "goroutine On_go_waiter = False"
| "goroutine On_go_runner = False"
| "goroutine On_send = False"
| "goroutine Off_isOn = False"
| "goroutine Off_cancel = False"
| "goroutine _ = True"

definition spawned :: "thread \<Rightarrow> bool" where
  "spawned t = (goroutine (fst t) \<and> snd t = [])"

definition controller :: "thread \<Rightarrow> bool" where
  "controller t = (\<not> goroutine (fst t) \<or> fst t = Finished)"

definition solo :: "world \<Rightarrow> bool" where
  "solo w = (case threads w of [] \<Rightarrow> False | t0 # ts \<Rightarrow> controller t0 \<and> (\<forall>t\<in>set ts. spawned t))"

text \<open>
  \<open>paired\<close>: no panic has happened; the stored cancel function cancels the stored
  context, except between the two writes of line 77 (\<open>writing\<close>); once a context has been
  installed (\<open>armed\<close>, or some goroutine has been started) neither field is nil again;
  and no watcher has deferred a nil cancel function (\<open>deferred\<close>).
\<close>

fun writing :: "pc \<Rightarrow> bool" where
  "writing (On_cancel c) = True"
| "writing _ = False"

fun armed :: "pc \<Rightarrow> bool" where
  "armed (On_cancel c) = True"
| "armed On_go_wait = True"
| "armed On_switch = True"
| "armed On_Activate = True"
| "armed On_go_waiter = True"
| "armed On_go_runner = True"
| "armed On_send = True"
| "armed Off_cancel = True"
| "armed _ = False"




text \<open>
  \<open>safe\<close>: the implementation is not dispatched to a \<^verbatim>\<open>Run\<close> that may return while
  its context is live. \<open>orderly\<close>: as long as nothing has been sent, no context is
  cancelled, every goroutine is at a statement from which it can neither send an event
  nor offer a value on the channel without a cancellation (\<open>calm\<close>), and the controller
  between two calls (\<open>idle\<close>) has not installed a context; and the first event sent is
  \<^verbatim>\<open>ability.started\<close>. \<open>runner\<close>: a statement on the path through \<^verbatim>\<open>onRunnable\<close>.
\<close>

definition safe :: "impl \<Rightarrow> bool" where
  "safe v = (Activable v \<or> \<not> Runnable v \<or> \<not> returns_uncancelled v)"

fun calm :: "pc \<Rightarrow> bool" where
  "calm Off_cancel = False"
| "calm (Wait_Err f err) = False"
| "calm (Wait_crashed f) = False"
| "calm (Wait_stopped f) = False"
| "calm (Wait_deferred f) = False"
| "calm Waiter_Activate = False"
| "calm Waiter_send = False"
| "calm (Runner_send err) = False"
| "calm _ = True"

fun idle :: "pc \<Rightarrow> bool" where
  "idle On_isOn = True"
| "idle Off_isOn = True"
| "idle Finished = True"
| "idle _ = False"

fun runner :: "pc \<Rightarrow> bool" where
  "runner On_go_runner = True"
| "runner Runner_Run = True"
| "runner (Runner_running c) = True"
| "runner _ = False"

definition orderly :: "world \<Rightarrow> bool" where
  "orderly w =
     (case threads w of
        [] \<Rightarrow> False
      | t0 # ts \<Rightarrow>
          (sent w = [] \<longrightarrow>
             (\<forall>c. \<not> cancelled w c) \<and> (\<forall>t\<in>set (t0 # ts). calm (fst t)) \<and>
             (idle (fst t0) \<longrightarrow> ctx (ab w) = None)) \<and>
          (sent w \<noteq> [] \<longrightarrow> fst (hd (sent w)) = WebsocketEventNameAbilityStarted) \<and>
          ((\<exists>t\<in>set (t0 # ts). runner (fst t)) \<longrightarrow> \<not> returns_uncancelled (a_field (ab w))) \<and>
          safe (a_field (ab w)))"

subsection \<open>Observations and a concrete ability\<close>

text \<open>How many \<^verbatim>\<open>ability.started\<close> events the websocket has been given.\<close>

definition started :: "world \<Rightarrow> nat" where
  "started w = length (filter (\<lambda>e. fst e = WebsocketEventNameAbilityStarted) (sent w))"


definition no_autostart :: AbilityOptions where
  "no_autostart = \<lparr>AutoStart = False\<rparr>"

text \<open>An Activable ability, just constructed, with no goroutine around it.\<close>

definition hotword :: world where
  "hotword = boot ''hotword'' (Impl True False False) no_autostart []"

text \<open>An implementation with both shapes, and one with neither.\<close>

definition both_shapes :: world where
  "both_shapes = boot ''both'' (Impl True True False) no_autostart []"

definition inert :: world where
  "inert = boot ''inert'' (Impl False False False) no_autostart []"

text \<open>
  The Activable ability again, with two goroutines that each call \<^verbatim>\<open>on\<close> once, and the
  schedule in which both run the \<^verbatim>\<open>isOn\<close> test of line 69 before either reaches line 77.
\<close>

definition two_callers :: world where
  "two_callers = boot ''hotword'' (Impl True False False) no_autostart [enter [On], enter [On]]"

definition race :: "move list" where
  "race = [Step 0, Step 1] @ replicate 7 (Step 0) @ replicate 7 (Step 1)"

text \<open>
  A Runnable whose \<^verbatim>\<open>Run\<close> returns an error by itself, under one goroutine that calls
  \<^verbatim>\<open>on\<close> once. In the schedule the caller (goroutine 0) runs \<^verbatim>\<open>on\<close> up to, but not
  including, line 93; the watcher (1) reaches its receive; \<^verbatim>\<open>Run\<close> is called (2) and
  returns; the error is handed over; the watcher classifies and sends; only then does the
  caller run line 93.
\<close>

definition crasher :: world where
  "crasher = boot ''crasher'' (Impl False True True) no_autostart [enter [On]]"

definition crash_first :: "move list" where
  "crash_first =
     [Step 0, Step 0, Step 0, Step 0, Step 0, Step 0, Step 1, Step 1, Step 2,
      Return 2 (Some ''boom''), Handoff 2 1, Step 1, Step 1, Step 0]"

text \<open>
  The same Runnable after an uninterrupted \<^verbatim>\<open>on\<close>, with its watcher at the receive of
  line 128 and its \<^verbatim>\<open>Run\<close> goroutine at the send of line 113, holding an error.
\<close>

definition crasher_sending :: world where
  "crasher_sending =
     (on (boot ''crasher'' (Impl False True True) no_autostart []))
       \<lparr>threads := [(Wait_recv (Some 0), []), (Runner_send (Some ''boom''), [])]\<rparr>"

text \<open>
  The Activable ability under one controller that calls \<^verbatim>\<open>on\<close>, then \<^verbatim>\<open>off\<close>.
  \<open>on_returned\<close>: the controller runs \<^verbatim>\<open>on\<close> to its end. \<open>clean_cycle\<close>: after that the
  watcher reaches its receive, the waiter its wait for cancellation, the controller runs
  \<^verbatim>\<open>off\<close>, the waiter deactivates and hands over, the watcher classifies, sends and
  runs the deferred cancel.
\<close>

definition controlled_hotword :: world where
  "controlled_hotword = boot ''hotword'' (Impl True False False) no_autostart [enter [On, Off]]"


definition clean_cycle :: "move list" where
  "clean_cycle =
     [Step 0, Step 0, Step 0, Step 0, Step 0, Step 0, Step 0, Step 0,
      Step 1, Step 1, Step 2, Step 0, Step 0, Step 2, Step 2, Handoff 2 1,
      Step 1, Step 1, Step 1]"

text \<open>
  The same ability under one controller that calls \<^verbatim>\<open>on\<close>, \<^verbatim>\<open>off\<close>, \<^verbatim>\<open>on\<close>. In the
  schedule the waiter of the first cycle (goroutine 2) is cancelled by \<^verbatim>\<open>off\<close> and gets to
  its send while the first watcher (1) has not run; the controller runs the second \<^verbatim>\<open>on\<close>
  up to line 93; the second watcher (3) reaches its receive and is handed the value of the
  first cycle's waiter.
\<close>

definition recycled_hotword :: world where
  "recycled_hotword =
     boot ''hotword'' (Impl True False False) no_autostart [enter [On, Off, On]]"

definition stale_handoff :: "move list" where
  "stale_handoff =
     [Step 0, Step 0, Step 0, Step 0, Step 0, Step 0, Step 0, Step 0,
      Step 2, Step 0, Step 0, Step 2, Step 2,
      Step 0, Step 0, Step 0, Step 0, Step 0, Step 0, Step 0,
      Step 3, Step 3, Handoff 2 3, Step 3, Step 3, Step 0]"










section \<open>Properties\<close>

subsection \<open>What one uninterrupted call changes\<close>

lemmas prim_defs =
  ws_send_def Activate_def WithCancel_def call_cancel_def go_def set_ctx_def set_cancel_def
  onActivable_def onRunnable_def panic_def put_def

lemma on_when_on: "isOn w \<Longrightarrow> on w = w"
  by (simp add: on_def)

lemma off_when_off: "\<not> isOn w \<Longrightarrow> off w = w"
  by (simp add: off_def)

lemma isOn_on: "\<not> isOn w \<Longrightarrow> isOn (on w)"
  by (simp add: on_def isOn_def isOnUnsafe_def prim_defs Let_def)

lemma sent_on:
  "\<not> isOn w \<Longrightarrow> sent (on w) = sent w @ [(WebsocketEventNameAbilityStarted, name (ab w))]"
  by (simp add: on_def prim_defs Let_def)

lemma ab_on: "\<not> isOn w \<Longrightarrow> ab (on w) = (ab w)\<lparr>ctx := Some (nctx w), cancel := Some (nctx w)\<rparr>"
  by (simp add: on_def prim_defs Let_def)

lemma threads_on:
  "\<not> isOn w \<Longrightarrow>
   threads (on w) =
     threads w @ (Wait_isOn, []) #
       (if Activable (a_field (ab w)) then [(Waiter_Done, [])]
        else if Runnable (a_field (ab w)) then [(Runner_Run, [])] else [])"
  by (simp add: on_def prim_defs Let_def)

lemma activated_on:
  "\<not> isOn w \<Longrightarrow>
   activated (on w) = activated w @ (if Activable (a_field (ab w)) then [True] else [])"
  by (simp add: on_def prim_defs Let_def)

lemma ran_on: "ran (on w) = ran w"
  by (simp add: on_def prim_defs Let_def)

lemma panicked_on: "panicked (on w) = panicked w"
  by (simp add: on_def prim_defs Let_def)

lemma cancelled_on: "\<not> isOn w \<Longrightarrow> cancelled (on w) = (cancelled w)(nctx w := False)"
  by (simp add: on_def prim_defs Let_def)

lemma nctx_on: "\<not> isOn w \<Longrightarrow> nctx (on w) = Suc (nctx w)"
  by (simp add: on_def prim_defs Let_def)

lemma isOn_frame [simp]:
  "isOn (w\<lparr>threads := ts\<rparr>) = isOn w"
  "isOn (w\<lparr>sent := es\<rparr>) = isOn w"
  "isOn (w\<lparr>activated := bs\<rparr>) = isOn w"
  "isOn (w\<lparr>ran := rs\<rparr>) = isOn w"
  "isOn (w\<lparr>nctx := k\<rparr>) = isOn w"
  "isOn (w\<lparr>panicked := b\<rparr>) = isOn w"
  by (simp_all add: isOn_def isOnUnsafe_def)

lemma off_when_paired:
  "isOn w \<Longrightarrow> cancel (ab w) = ctx (ab w) \<Longrightarrow> \<not> isOn (off w) \<and> panicked (off w) = panicked w"
  by (auto simp add: off_def isOn_def isOnUnsafe_def call_cancel_def panic_def)

lemma not_isOn_boot: "\<not> isOn (boot n v opts ts)"
  by (simp add: boot_def isOn_def isOnUnsafe_def newAbility_def)

lemma not_isOn_hotword: "\<not> isOn hotword"
  by (simp add: hotword_def not_isOn_boot)

lemma crasher_sending_simps:
  "threads crasher_sending = [(Wait_recv (Some 0), []), (Runner_send (Some ''boom''), [])]"
  "\<not> panicked crasher_sending" "ctx (ab crasher_sending) = Some 0"
  "cancel (ab crasher_sending) = Some 0" "name (ab crasher_sending) = ''crasher''"
  "\<not> cancelled crasher_sending 0" "isOn crasher_sending"
  "sent crasher_sending = [(WebsocketEventNameAbilityStarted, ''crasher'')]"
  by (simp_all add: crasher_sending_def not_isOn_boot ab_on panicked_on cancelled_on sent_on
        isOn_on)
     (simp_all add: boot_def newAbility_def)

lemma off_crasher_sending_simps:
  "threads (off crasher_sending) = [(Wait_recv (Some 0), []), (Runner_send (Some ''boom''), [])]"
  "\<not> panicked (off crasher_sending)" "ctx (ab (off crasher_sending)) = Some 0"
  "name (ab (off crasher_sending)) = ''crasher''"
  "cancelled (off crasher_sending) 0"
  "sent (off crasher_sending) = [(WebsocketEventNameAbilityStarted, ''crasher'')]"
  by (simp_all add: off_def call_cancel_def panic_def crasher_sending_simps)

subsection \<open>The completion channel is never replaced\<close>

lemma chanDone_advance: "advance t w = Some (t', w') \<Longrightarrow> chanDone (ab w') = chanDone (ab w)"
  by (cases "(t, w)" rule: advance.cases)
     (auto simp add: prim_defs split: option.splits if_splits)

lemma chanDone_step: "step m w = Some w' \<Longrightarrow> chanDone (ab w') = chanDone (ab w)"
  by (cases m) (auto simp add: put_def split: option.splits if_splits dest: chanDone_advance)

lemma chanDone_exec: "exec ms w = Some w' \<Longrightarrow> chanDone (ab w') = chanDone (ab w)"
proof (induction ms arbitrary: w)
  case Nil
  then show ?case by simp
next
  case (Cons m ms)
  then show ?case
    by (auto split: option.splits dest: chanDone_step)
qed

lemma chanDone_off: "chanDone (ab (off w)) = chanDone (ab w)"
  by (simp add: off_def call_cancel_def panic_def split: option.splits)

lemma chanDone_on: "chanDone (ab (on w)) = chanDone (ab w)"
  by (cases "isOn w") (simp_all add: on_when_on ab_on)

subsection \<open>The functions are the uninterrupted runs of the machine\<close>

lemma on_uninterrupted:
  assumes "\<not> panicked w" and "i < length (threads w)" and "threads w ! i = (On_isOn, k)"
  shows "\<exists>n. exec (replicate n (Step i)) w = Some (put i (enter k) (on w))"
proof (cases "isOn w")
  case True
  with assms have "exec (replicate 1 (Step i)) w = Some (put i (enter k) (on w))"
    by (simp add: on_when_on)
  then show ?thesis ..
next
  case off: False
  show ?thesis
  proof (cases "Activable (a_field (ab w))")
    case True
    with assms off have "exec (replicate 8 (Step i)) w = Some (put i (enter k) (on w))"
      by (simp add: eval_nat_numeral on_def prim_defs nth_append list_update_append Let_def)
    then show ?thesis ..
  next
    case na: False
    show ?thesis
    proof (cases "Runnable (a_field (ab w))")
      case True
      with assms off na have "exec (replicate 7 (Step i)) w = Some (put i (enter k) (on w))"
        by (simp add: eval_nat_numeral on_def prim_defs nth_append list_update_append Let_def)
      then show ?thesis ..
    next
      case False
      with assms off na have "exec (replicate 6 (Step i)) w = Some (put i (enter k) (on w))"
        by (simp add: eval_nat_numeral on_def prim_defs nth_append list_update_append Let_def)
      then show ?thesis ..
    qed
  qed
qed

lemma off_uninterrupted:
  assumes "\<not> panicked w" and "i < length (threads w)" and "threads w ! i = (Off_isOn, k)"
  shows "\<exists>n. exec (replicate n (Step i)) w = Some (put i (enter k) (off w))"
proof (cases "isOn w")
  case False
  with assms have "exec (replicate 1 (Step i)) w = Some (put i (enter k) (off w))"
    by (simp add: off_when_off)
  then show ?thesis ..
next
  case True
  with assms have "exec (replicate 2 (Step i)) w = Some (put i (enter k) (off w))"
    by (cases "cancel (ab w)") (simp_all add: eval_nat_numeral off_def prim_defs)
  then show ?thesis ..
qed

subsection \<open>Moves under one controller\<close>

lemma controller_enter [simp]: "controller (enter k)"
  by (cases k rule: enter.cases) (simp_all add: controller_def)

lemma goroutine_enter [simp]: "goroutine (fst (enter k)) \<longleftrightarrow> k = []"
  by (cases k rule: enter.cases) simp_all

lemma enter_Nil_iff [simp]: "fst (enter k) = Finished \<longleftrightarrow> k = []"
  by (cases k rule: enter.cases) simp_all

lemma advance_controller:
  "advance t w = Some (t', w') \<Longrightarrow> controller t \<Longrightarrow>
   controller t' \<and> (\<exists>sp. threads w' = threads w @ sp \<and> (\<forall>x\<in>set sp. spawned x))"
  by (cases "(t, w)" rule: advance.cases)
     (auto simp add: prim_defs controller_def spawned_def split: option.splits if_splits)

lemma advance_spawned:
  "advance t w = Some (t', w') \<Longrightarrow> spawned t \<Longrightarrow> spawned t' \<and> threads w' = threads w"
  by (cases "(t, w)" rule: advance.cases)
     (auto simp add: prim_defs spawned_def split: option.splits if_splits)

lemma step_StepD:
  "step (Step i) w = Some w'' \<Longrightarrow>
   \<exists>t' w'. \<not> panicked w \<and> i < length (threads w) \<and> advance (threads w ! i) w = Some (t', w') \<and>
      w'' = put i t' w'"
  by (auto split: if_splits option.splits)

lemma all_update: "\<forall>x\<in>set xs. P x \<Longrightarrow> P t \<Longrightarrow> \<forall>x\<in>set (xs[i := t]). P x"
  by (metis insert_iff set_update_subset_insert subsetD)

lemma solo_Step: assumes "solo w" and "step (Step i) w = Some w''" shows "solo w''"
proof -
  from assms(2) obtain t' w' where s: "\<not> panicked w" "i < length (threads w)"
      "advance (threads w ! i) w = Some (t', w')" "w'' = put i t' w'"
    by (blast dest: step_StepD)
  from assms(1) obtain t0 ts where th: "threads w = t0 # ts" "controller t0" "\<forall>t\<in>set ts. spawned t"
    by (auto simp add: solo_def split: list.splits)
  show ?thesis
  proof (cases i)
    case 0
    with s th advance_controller [of t0 w t' w'] show ?thesis
      by (auto simp add: solo_def put_def)
  next
    case (Suc j)
    with s th have "spawned (ts ! j)" by simp
    with s th Suc advance_spawned [of "ts ! j" w t' w']
    have "spawned t'" "threads w' = t0 # ts" by simp_all
    with s th Suc all_update [of ts spawned t' j] show ?thesis
      by (simp add: solo_def put_def)
  qed
qed

lemma step_HandoffD:
  "step (Handoff s r) w = Some w' \<Longrightarrow>
   \<exists>err p. \<not> panicked w \<and> s < length (threads w) \<and> r < length (threads w) \<and>
      offers (fst (threads w ! s)) = Some err \<and> takes (fst (threads w ! r)) err = Some p \<and>
      w' = put r (p, snd (threads w ! r)) (put s (enter (snd (threads w ! s))) w)"
  by (auto split: if_splits option.splits)

lemma step_ReturnD:
  "step (Return i err) w = Some w' \<Longrightarrow>
   \<exists>c. \<not> panicked w \<and> i < length (threads w) \<and> running (fst (threads w ! i)) = Some c \<and>
      may_return w c \<and> w' = put i (Runner_send err, snd (threads w ! i)) w"
  by (auto split: if_splits option.splits)

lemma offersD: "offers p = Some e \<Longrightarrow> p = Waiter_send \<and> e = None \<or> p = Runner_send e"
  by (cases p) simp_all

lemma takesD: "takes p e = Some p' \<Longrightarrow> \<exists>f. p = Wait_recv f \<and> p' = Wait_Err f e"
  by (cases p) simp_all

lemma runningD: "running p = Some c \<Longrightarrow> p = Runner_running c"
  by (cases p) simp_all

lemma controller_alone:
  "controller t \<Longrightarrow> offers (fst t) = None \<and> takes (fst t) e = None \<and> running (fst t) = None"
  by (cases "fst t") (auto simp add: controller_def)

lemma solo_Handoff: assumes "solo w" and "step (Handoff s r) w = Some w'" shows "solo w'"
proof -
  from assms(2) obtain err p where h: "s < length (threads w)" "r < length (threads w)"
     "offers (fst (threads w ! s)) = Some err" "takes (fst (threads w ! r)) err = Some p"
     "w' = put r (p, snd (threads w ! r)) (put s (enter (snd (threads w ! s))) w)"
    by (blast dest: step_HandoffD)
  from assms(1) obtain t0 ts where th: "threads w = t0 # ts" "controller t0" "\<forall>t\<in>set ts. spawned t"
    by (auto simp add: solo_def split: list.splits)
  from h(3) th controller_alone [of t0] have s0: "s \<noteq> 0" by (cases s) simp_all
  from h(4) th controller_alone [of t0 err] have r0: "r \<noteq> 0" by (cases r) simp_all
  from s0 r0 obtain s' r' where sr: "s = Suc s'" "r = Suc r'" by (auto simp add: gr0_conv_Suc)
  from h th sr have "spawned (ts ! s')" "spawned (ts ! r')" by simp_all
  with h(3,4) th sr have a: "spawned (enter (snd (ts ! s')))" and b: "spawned (p, snd (ts ! r'))"
    by (auto simp add: spawned_def dest!: takesD)
  from th(3) a have "\<forall>t\<in>set (ts[s' := enter (snd (ts ! s'))]). spawned t"
    by (rule all_update)
  from this b
  have "\<forall>t\<in>set (ts[s' := enter (snd (ts ! s')), r' := (p, snd (ts ! r'))]). spawned t"
    by (rule all_update)
  with h th sr show ?thesis by (simp add: solo_def put_def)
qed

lemma solo_Return: assumes "solo w" and "step (Return i err) w = Some w'" shows "solo w'"
proof -
  from assms(2) obtain c where h: "i < length (threads w)" "running (fst (threads w ! i)) = Some c"
     "w' = put i (Runner_send err, snd (threads w ! i)) w"
    by (blast dest: step_ReturnD)
  from assms(1) obtain t0 ts where th: "threads w = t0 # ts" "controller t0" "\<forall>t\<in>set ts. spawned t"
    by (auto simp add: solo_def split: list.splits)
  from h(2) th controller_alone [of t0] have "i \<noteq> 0" by (cases i) simp_all
  then obtain j where j: "i = Suc j" by (auto simp add: gr0_conv_Suc)
  from h th j have "spawned (ts ! j)" by simp
  then have "spawned (Runner_send err, snd (ts ! j))" by (simp add: spawned_def)
  with th(3) have "\<forall>t\<in>set (ts[j := (Runner_send err, snd (ts ! j))]). spawned t"
    by (rule all_update)
  with h th j show ?thesis by (simp add: solo_def put_def)
qed

lemma solo_step: "solo w \<Longrightarrow> step m w = Some w' \<Longrightarrow> solo w'"
  by (cases m) (blast intro: solo_Step solo_Handoff solo_Return)+

lemma solo_step_cases [consumes 2, case_names controller goroutine handoff return]:
  assumes "solo w" and "step m w = Some w'"
  obtains
    (controller) t0 ts t0' w1 where
      "threads w = t0 # ts" "\<not> panicked w" "advance t0 w = Some (t0', w1)" "w' = put 0 t0' w1"
      "controller t0"
  | (goroutine) t0 ts j t' w1 where
      "threads w = t0 # ts" "\<not> panicked w" "j < length ts" "advance (ts ! j) w = Some (t', w1)"
      "w' = put (Suc j) t' w1" "spawned (ts ! j)"
  | (handoff) t0 ts s r f e where
      "threads w = t0 # ts" "s < length ts" "r < length ts" "offers (fst (ts ! s)) = Some e"
      "ts ! r = (Wait_recv f, [])"
      "w' = w\<lparr>threads := t0 # ts[s := (Finished, []), r := (Wait_Err f e, [])]\<rparr>"
  | (return) t0 ts j c e where
      "threads w = t0 # ts" "j < length ts" "ts ! j = (Runner_running c, [])" "may_return w c"
      "w' = w\<lparr>threads := t0 # ts[j := (Runner_send e, [])]\<rparr>"
proof -
  from assms(1) obtain t0 ts where th: "threads w = t0 # ts" "controller t0" "\<forall>t\<in>set ts. spawned t"
    by (auto simp add: solo_def split: list.splits)
  show thesis
  proof (cases m)
    case (Step i)
    with assms(2) obtain t' w1 where s: "\<not> panicked w" "i < length (threads w)"
        "advance (threads w ! i) w = Some (t', w1)" "w' = put i t' w1"
      by (blast dest: step_StepD)
    show thesis
    proof (cases i)
      case 0
      with s th show thesis by (intro controller [of t0 ts t' w1]) simp_all
    next
      case (Suc j)
      with s th show thesis by (intro goroutine [of t0 ts j t' w1]) simp_all
    qed
  next
    case (Handoff s r)
    with assms(2) obtain err p where h: "s < length (threads w)" "r < length (threads w)"
       "offers (fst (threads w ! s)) = Some err" "takes (fst (threads w ! r)) err = Some p"
       "w' = put r (p, snd (threads w ! r)) (put s (enter (snd (threads w ! s))) w)"
      by (blast dest: step_HandoffD)
    from h(3) th controller_alone [of t0] have s0: "s \<noteq> 0" by (cases s) simp_all
    from h(4) th controller_alone [of t0 err] have r0: "r \<noteq> 0" by (cases r) simp_all
    from s0 r0 obtain s' r' where sr: "s = Suc s'" "r = Suc r'" by (auto simp add: gr0_conv_Suc)
    from h th sr have sp: "spawned (ts ! s')" "spawned (ts ! r')" by simp_all
    from h(4) th sr obtain f where f: "fst (ts ! r') = Wait_recv f" "p = Wait_Err f err"
      by (auto dest!: takesD)
    from f sp have r: "ts ! r' = (Wait_recv f, [])"
      by (cases "ts ! r'") (simp add: spawned_def)
    from sp have e: "enter (snd (ts ! s')) = (Finished, [])" by (simp add: spawned_def)
    from h th sr f r e show thesis
      by (intro handoff [of t0 ts s' r' err f]) (simp_all add: put_def)
  next
    case (Return i err)
    with assms(2) obtain c where h: "i < length (threads w)"
       "running (fst (threads w ! i)) = Some c" "may_return w c"
       "w' = put i (Runner_send err, snd (threads w ! i)) w"
      by (blast dest: step_ReturnD)
    from h(2) th controller_alone [of t0] have "i \<noteq> 0" by (cases i) simp_all
    then obtain j where j: "i = Suc j" by (auto simp add: gr0_conv_Suc)
    from h th j have sp: "spawned (ts ! j)" by simp
    from h(2) th j have "fst (ts ! j) = Runner_running c" by (auto dest!: runningD)
    with sp have r: "ts ! j = (Runner_running c, [])"
      by (cases "ts ! j") (simp add: spawned_def)
    from h th j r show thesis
      by (intro return [of t0 ts j c err]) (simp_all add: put_def)
  qed
qed

subsection \<open>The cancel function stays paired with the context\<close>

lemma writing_enter [simp]: "\<not> writing (fst (enter k))"
  by (cases k rule: enter.cases) simp_all

lemma armed_enter [simp]: "\<not> armed (fst (enter k))"
  by (cases k rule: enter.cases) simp_all

lemma On_cancel_enter [simp]: "fst (enter k) \<noteq> On_cancel c"
  by (cases k rule: enter.cases) simp_all







subsection \<open>Nothing is sent before \<^verbatim>\<open>ability.started\<close>\<close>

lemma idle_enter [simp]: "idle (fst (enter k))"
  by (cases k rule: enter.cases) simp_all

lemma calm_enter [simp]: "calm (fst (enter k))"
  by (cases k rule: enter.cases) simp_all

lemma runner_enter [simp]: "\<not> runner (fst (enter k))"
  by (cases k rule: enter.cases) simp_all

lemma orderly_controller:
  assumes "orderly w" and "threads w = t0 # ts" and "advance t0 w = Some (t0', w1)"
    and "controller t0"
  shows "orderly (put 0 t0' w1)"
  using assms
  by (cases "(t0, w)" rule: advance.cases)
     (auto simp add: orderly_def prim_defs isOn_def isOnUnsafe_def controller_def safe_def
        hd_append split: if_splits option.splits)

lemma goroutine_frame:
  assumes "advance t w = Some ((p, k), w1)" and "spawned t"
  shows "ab w1 = ab w \<and> threads w1 = threads w \<and> k = [] \<and> (\<exists>es. sent w1 = sent w @ es) \<and>
         (runner p \<longrightarrow> runner (fst t))"
  using assms
  by (cases "(t, w)" rule: advance.cases)
     (auto simp add: prim_defs spawned_def split: if_splits option.splits)

lemma goroutine_calm:
  assumes "advance t w = Some ((p, k), w1)" and "spawned t" and "calm (fst t)"
    and "\<forall>c. \<not> cancelled w c"
  shows "sent w1 = sent w \<and> cancelled w1 = cancelled w \<and> calm p"
  using assms
  by (cases "(t, w)" rule: advance.cases)
     (auto simp add: prim_defs spawned_def split: if_splits option.splits)

lemma orderly_goroutine:
  assumes "orderly w" and "threads w = t0 # ts" and "advance (ts ! j) w = Some (t', w1)"
    and "spawned (ts ! j)" and "j < length ts"
  shows "orderly (put (Suc j) t' w1)"
proof -
  obtain p k where t': "t' = (p, k)" by (cases t')
  from assms(3,4) t' obtain es where
    fr: "ab w1 = ab w" "threads w1 = threads w" "sent w1 = sent w @ es"
      "runner p \<longrightarrow> runner (fst (ts ! j))"
    by (blast dest: goroutine_frame)
  from assms(5) have mem: "ts ! j \<in> set ts" by simp
  have "(\<exists>t\<in>set (t0 # ts[j := t']). runner (fst t)) \<longrightarrow> (\<exists>t\<in>set (t0 # ts). runner (fst t))"
    using fr(4) mem t' by (auto dest!: set_update_subset_insert [THEN subsetD])
  moreover from assms(1,2)
  have "(\<exists>t\<in>set (t0 # ts). runner (fst t)) \<longrightarrow> \<not> returns_uncancelled (a_field (ab w))"
    by (simp add: orderly_def)
  ultimately
  have run: "(\<exists>t\<in>set (t0 # ts[j := t']). runner (fst t)) \<longrightarrow>
             \<not> returns_uncancelled (a_field (ab w))"
    by blast
  show ?thesis
  proof (cases "sent w = []")
    case True
    with assms(1,2) have q: "\<forall>c. \<not> cancelled w c" "\<forall>t\<in>set ts. calm (fst t)" "calm (fst t0)"
        "idle (fst t0) \<longrightarrow> ctx (ab w) = None"
      by (simp_all add: orderly_def)
    from q(2) mem have "calm (fst (ts ! j))" by blast
    with assms(3,4) t' q(1) have c: "sent w1 = sent w" "cancelled w1 = cancelled w" "calm p"
      by (simp_all add: goroutine_calm)
    from q(2) c(3) t' have "\<forall>t\<in>set (ts[j := t']). calm (fst t)"
      by (intro all_update) simp_all
    with assms(1,2) fr(1,2) c q run True show ?thesis
      by (simp add: orderly_def put_def)
  next
    case False
    with assms(1,2) fr run show ?thesis
      by (simp add: orderly_def put_def)
  qed
qed

lemma orderly_step: assumes "solo w" and "step m w = Some w'" and "orderly w" shows "orderly w'"
  using assms(1,2)
proof (cases rule: solo_step_cases)
  case (controller t0 ts t0' w1)
  with assms(3) show ?thesis by (simp only: orderly_controller)
next
  case (goroutine t0 ts j t' w1)
  with assms(3) show ?thesis by (simp only: orderly_goroutine)
next
  case (handoff t0 ts s r f e)
  from handoff(2) have mem: "ts ! s \<in> set ts" by simp
  from handoff(4) have nc: "\<not> calm (fst (ts ! s))" by (auto dest!: offersD)
  with mem assms(3) handoff(1) have ne: "sent w \<noteq> []"
    by (auto simp add: orderly_def)
  have "(\<exists>t\<in>set (t0 # ts[s := (Finished, []), r := (Wait_Err f e, [])]). runner (fst t)) \<longrightarrow>
        (\<exists>t\<in>set (t0 # ts). runner (fst t))"
    by (auto dest!: set_update_subset_insert [THEN subsetD])
  moreover from assms(3) handoff(1)
  have "(\<exists>t\<in>set (t0 # ts). runner (fst t)) \<longrightarrow> \<not> returns_uncancelled (a_field (ab w))"
    by (simp add: orderly_def)
  ultimately
  have "(\<exists>t\<in>set (t0 # ts[s := (Finished, []), r := (Wait_Err f e, [])]). runner (fst t)) \<longrightarrow>
        \<not> returns_uncancelled (a_field (ab w))"
    by blast
  with assms(3) handoff ne show ?thesis by (simp add: orderly_def)
next
  case (return t0 ts j c e)
  from return(2,3) have mem: "(Runner_running c, []) \<in> set ts" by (metis nth_mem)
  with assms(3) return(1) have nr: "\<not> returns_uncancelled (a_field (ab w))"
    by (force simp add: orderly_def)
  with return(4) have "Err c (cancelled w)" by (simp add: may_return_def)
  then have "\<exists>c. cancelled w c" by (cases c) auto
  with assms(3) return(1) have ne: "sent w \<noteq> []"
    by (auto simp add: orderly_def)
  have "(\<exists>t\<in>set (t0 # ts[j := (Runner_send e, [])]). runner (fst t)) \<longrightarrow>
        \<not> returns_uncancelled (a_field (ab w))"
    using nr by simp
  with assms(3) return ne show ?thesis by (simp add: orderly_def)
qed

lemma orderly_boot: "safe v \<Longrightarrow> orderly (boot n v opts [enter calls])"
  by (simp add: orderly_def boot_def newAbility_def)

lemma solo_boot: "solo (boot n v opts [enter calls])"
  by (simp add: solo_def boot_def)

lemma orderly_exec: "solo w \<Longrightarrow> orderly w \<Longrightarrow> exec ms w = Some w' \<Longrightarrow> orderly w'"
proof (induction ms arbitrary: w)
  case Nil
  then show ?case by simp
next
  case (Cons m ms)
  from Cons.prems(3) obtain w1 where s: "step m w = Some w1" "exec ms w1 = Some w'"
    by (auto split: option.splits)
  from Cons.prems(1) s(1) have 1: "solo w1" by (rule solo_step)
  from Cons.prems(1) s(1) Cons.prems(2) have 2: "orderly w1" by (rule orderly_step)
  from 1 2 s(2) show ?case by (rule Cons.IH)
qed

subsection \<open>A controller that only calls \<^verbatim>\<open>on\<close> starts one session\<close>


lemma enter_not_On_ctx [simp]: "fst (enter k) \<noteq> On_ctx"
  by (cases k rule: enter.cases) simp_all






lemma on_twice_uninterrupted:
  "(isOn w \<longrightarrow> on w = w) \<and>
   (\<not> isOn w \<longrightarrow>
      isOn (on w) \<and> on (on w) = on w \<and> started (on (on w)) = Suc (started w))"
  by (simp add: on_when_on isOn_on started_def sent_on)

subsection \<open>Schedules, evaluated\<close>



lemma clean_cycle_sent:
  "map_option sent (exec clean_cycle controlled_hotword) =
     Some [(WebsocketEventNameAbilityStarted, ''hotword''),
           (WebsocketEventNameAbilityStopped, ''hotword'')]"
  by code_simp


text \<open>
  Beyond the first cycle the order of C4 is not kept even for an Activable ability under one
  controller: the channel is shared by all cycles, so the watcher of the second cycle can
  take the value that the waiter of the first cycle offers, and reports a crash of the second
  cycle before the second \<^verbatim>\<open>ability.started\<close> is sent.
\<close>

lemma later_cycle_crashed_before_started:
  "map_option sent (exec stale_handoff recycled_hotword) =
     Some [(WebsocketEventNameAbilityStarted, ''hotword''),
           (WebsocketEventNameAbilityCrashed, ''hotword''),
           (WebsocketEventNameAbilityStarted, ''hotword'')]"
  by code_simp

subsection \<open>The supervisor, property by property\<close>

text \<open>
  C1. A watcher \<open>r\<close> waits at the receive of line 128 and a goroutine \<open>s\<close> is at a send
  on the channel, offering \<open>err\<close>. After the handoff the watcher's next two statements
  send exactly one event: \<^verbatim>\<open>ability.crashed\<close> when the error of the context in \<^verbatim>\<open>a.ctx\<close>
  is nil, \<^verbatim>\<open>ability.stopped\<close> when it is not. The value \<open>err\<close> that was received does
  not occur in the result.
\<close>

theorem C1_classified_by_context_error:
  "r < length (threads w) \<Longrightarrow> s < length (threads w) \<Longrightarrow>
   threads w ! r = (Wait_recv f, k) \<Longrightarrow> offers (fst (threads w ! s)) = Some err \<Longrightarrow>
   \<not> panicked w \<Longrightarrow> ctx (ab w) = Some c \<Longrightarrow>
   map_option sent (exec [Handoff s r, Step r, Step r] w) =
     Some (sent w @ [(if cancelled w c then WebsocketEventNameAbilityStopped
                      else WebsocketEventNameAbilityCrashed, name (ab w))])"
  by (auto simp add: prim_defs)

theorem C1_classified_by_context_error_witness:
  "map_option sent (exec [Handoff 1 0, Step 0, Step 0] crasher_sending) =
     Some [(WebsocketEventNameAbilityStarted, ''crasher''),
           (WebsocketEventNameAbilityCrashed, ''crasher'')] \<and>
   map_option sent (exec [Handoff 1 0, Step 0, Step 0] (off crasher_sending)) =
     Some [(WebsocketEventNameAbilityStarted, ''crasher''),
           (WebsocketEventNameAbilityStopped, ''crasher'')]"
  using C1_classified_by_context_error
          [of 0 crasher_sending 1 "Some 0" "[]" "Some ''boom''" 0]
        C1_classified_by_context_error
          [of 0 "off crasher_sending" 1 "Some 0" "[]" "Some ''boom''" 0]
  by (simp add: crasher_sending_simps off_crasher_sending_simps)

text \<open>
  C2, at the failing schedule. Two goroutines call \<^verbatim>\<open>on\<close> on the ability \<open>hotword\<close>,
  which is off. Both pass the test of line 69 before either writes \<^verbatim>\<open>a.ctx\<close>: the
  lock is released when \<^verbatim>\<open>isOn\<close> returns. Each then runs the rest of \<^verbatim>\<open>on\<close>. Two
  \<^verbatim>\<open>ability.started\<close> events are sent, \<^verbatim>\<open>Activate(true)\<close> is called twice, and two
  watchers and two waiters are started.
\<close>

theorem C2_two_sessions_at_race:
  "map_option started (exec race two_callers) = Some 2 \<and>
   map_option activated (exec race two_callers) = Some [True, True] \<and>
   map_option threads (exec race two_callers) =
     Some [(Finished, []), (Finished, []), (Wait_isOn, []), (Waiter_Done, []),
           (Wait_isOn, []), (Waiter_Done, [])]"
  by code_simp

text \<open>
  C3, as stated, fails. On the Activable ability \<open>hotword\<close>, run \<^verbatim>\<open>on\<close>, \<^verbatim>\<open>off\<close>, \<^verbatim>\<open>on\<close>.
  Both \<^verbatim>\<open>on\<close> calls start a session and the second installs another context, but the
  completion channel of the second cycle is the channel of the first one, which is the
  channel \<^verbatim>\<open>newAbility\<close> made: the signal is reused across cycles and was not created
  together with any context.
\<close>

theorem C3_channel_reused_counterexample:
  "\<not> isOn hotword \<and> isOn (on hotword) \<and>
   \<not> isOn (off (on hotword)) \<and> isOn (on (off (on hotword))) \<and>
   ctx (ab (on (off (on hotword)))) \<noteq> ctx (ab (on hotword)) \<and>
   chanDone (ab (on (off (on hotword)))) = chanDone (ab (on hotword)) \<and>
   chanDone (ab (on hotword)) = chanDone (ab hotword)"
proof -
  have 1: "\<not> isOn hotword" by (rule not_isOn_hotword)
  have 2: "isOn (on hotword)" using 1 by (rule isOn_on)
  have 3: "cancel (ab (on hotword)) = ctx (ab (on hotword))" using 1 by (simp add: ab_on)
  have 4: "\<not> isOn (off (on hotword))" using off_when_paired [OF 2 3] by simp
  have 5: "isOn (on (off (on hotword)))" using 4 by (rule isOn_on)
  have 6: "nctx (off (on hotword)) = Suc (nctx hotword)"
    using 1 2 by (simp add: off_def call_cancel_def panic_def nctx_on ab_on)
  have 7: "ctx (ab (on (off (on hotword)))) \<noteq> ctx (ab (on hotword))"
    using 1 4 6 by (simp add: ab_on)
  show ?thesis using 1 2 4 5 7 by (simp add: chanDone_on chanDone_off)
qed

text \<open>
  C3, amended. \<^verbatim>\<open>newAbility\<close> makes the completion channel, with no context beside it.
  A successful \<^verbatim>\<open>on\<close> installs the next unused context, not cancelled, together with its
  cancel function, and keeps the channel. \<^verbatim>\<open>off\<close> keeps the channel, and so does every
  move of every goroutine in every schedule: one channel serves all cycles.
\<close>

theorem C3_context_replaced_channel_kept:
  "chanDone (newAbility n v opts ch) = ch \<and> ctx (newAbility n v opts ch) = None \<and>
   (\<not> isOn w \<longrightarrow>
      ctx (ab (on w)) = Some (nctx w) \<and> cancel (ab (on w)) = Some (nctx w) \<and>
      \<not> cancelled (on w) (nctx w) \<and> nctx (on w) = Suc (nctx w) \<and>
      chanDone (ab (on w)) = chanDone (ab w)) \<and>
   chanDone (ab (off w)) = chanDone (ab w) \<and>
   (\<forall>ms w'. exec ms w = Some w' \<longrightarrow> chanDone (ab w') = chanDone (ab w))"
  by (simp add: newAbility_def ab_on cancelled_on nctx_on chanDone_off chanDone_exec)

theorem C3_context_replaced_channel_kept_witness:
  "\<not> isOn hotword \<and>
   ctx (ab (on hotword)) = Some 0 \<and> cancel (ab (on hotword)) = Some 0 \<and>
   \<not> cancelled (on hotword) 0 \<and> nctx (on hotword) = 1 \<and>
   chanDone (ab (on hotword)) = 0 \<and>
   (\<exists>w. exec clean_cycle controlled_hotword = Some w \<and> chanDone (ab w) = 0)"
proof -
  have 1: "nctx hotword = 0" "chanDone (ab hotword) = 0"
    by (simp_all add: hotword_def boot_def newAbility_def)
  have 2: "chanDone (ab controlled_hotword) = 0"
    by (simp add: controlled_hotword_def boot_def newAbility_def)
  from clean_cycle_sent obtain w where w: "exec clean_cycle controlled_hotword = Some w"
    by auto
  from C3_context_replaced_channel_kept [of _ _ _ _ controlled_hotword] w 2
  have 3: "chanDone (ab w) = 0" by simp
  from C3_context_replaced_channel_kept [of _ _ _ _ hotword] not_isOn_hotword 1
  have "ctx (ab (on hotword)) = Some 0 \<and> cancel (ab (on hotword)) = Some 0 \<and>
        \<not> cancelled (on hotword) 0 \<and> nctx (on hotword) = 1 \<and>
        chanDone (ab (on hotword)) = 0"
    by simp
  with not_isOn_hotword w 3 show ?thesis by blast
qed

text \<open>
  C4, as stated, fails. For the Runnable \<open>crasher\<close>, whose \<^verbatim>\<open>Run\<close> returns an error
  without being cancelled, the schedule \<open>crash_first\<close> interleaves one caller of \<^verbatim>\<open>on\<close>,
  the watcher and the \<^verbatim>\<open>Run\<close> goroutine so that \<^verbatim>\<open>ability.crashed\<close> is sent before
  the \<^verbatim>\<open>ability.started\<close> of the same cycle.
\<close>

theorem C4_crashed_before_started_counterexample:
  "map_option sent (exec crash_first crasher) =
     Some [(WebsocketEventNameAbilityCrashed, ''crasher''),
           (WebsocketEventNameAbilityStarted, ''crasher'')]"
  by code_simp

text \<open>
  C4, amended. Take a newly constructed ability and one controlling goroutine that makes
  any sequence of \<^verbatim>\<open>on\<close> and \<^verbatim>\<open>off\<close> calls. If the implementation is Activable, or not
  Runnable, or a Runnable whose \<^verbatim>\<open>Run\<close> returns only after its context is cancelled,
  then in every schedule of the controller, the watchers, the waiters and the \<^verbatim>\<open>Run\<close>
  goroutines the first event sent is \<^verbatim>\<open>ability.started\<close>: in the first cycle
  \<^verbatim>\<open>ability.started\<close> comes before \<^verbatim>\<open>ability.stopped\<close> and \<^verbatim>\<open>ability.crashed\<close>.
\<close>

theorem C4_first_event_is_started:
  assumes "Activable v \<or> \<not> Runnable v \<or> \<not> returns_uncancelled v"
    and "exec ms (boot n v opts [enter calls]) = Some w"
  shows "sent w \<noteq> [] \<longrightarrow> fst (hd (sent w)) = WebsocketEventNameAbilityStarted"
proof -
  from assms(1) have "orderly (boot n v opts [enter calls])"
    by (simp add: orderly_boot safe_def)
  with solo_boot have "orderly w" using assms(2) by (rule orderly_exec)
  then show ?thesis by (auto simp add: orderly_def split: list.splits)
qed

theorem C4_first_event_is_started_witness:
  "\<exists>w. exec clean_cycle controlled_hotword = Some w \<and>
       sent w = [(WebsocketEventNameAbilityStarted, ''hotword''),
                 (WebsocketEventNameAbilityStopped, ''hotword'')] \<and>
       fst (hd (sent w)) = WebsocketEventNameAbilityStarted"
proof -
  from clean_cycle_sent obtain w where w: "exec clean_cycle controlled_hotword = Some w"
    "sent w = [(WebsocketEventNameAbilityStarted, ''hotword''),
               (WebsocketEventNameAbilityStopped, ''hotword'')]"
    by auto
  from w(1)
  have "exec clean_cycle
          (boot ''hotword'' (Impl True False False) no_autostart [enter [On, Off]]) = Some w"
    by (simp add: controlled_hotword_def)
  from C4_first_event_is_started [OF _ this] w show ?thesis by simp
qed




text \<open>
  C6. On an ability that is off: when the implementation is both Activable and Runnable,
  \<^verbatim>\<open>on\<close> calls \<^verbatim>\<open>Activate(true)\<close> and starts the watcher and the Activable waiter, and no
  goroutine for \<^verbatim>\<open>Run\<close>. When it is neither, \<^verbatim>\<open>on\<close> still leaves the ability on, starts
  the watcher only, sends \<^verbatim>\<open>ability.started\<close>, calls nothing of the implementation and
  does not panic.
\<close>

theorem C6_dispatch_priority_and_inert:
  "\<not> isOn w \<Longrightarrow>
   (Activable (a_field (ab w)) \<and> Runnable (a_field (ab w)) \<longrightarrow>
      activated (on w) = activated w @ [True] \<and> ran (on w) = ran w \<and>
      threads (on w) = threads w @ [(Wait_isOn, []), (Waiter_Done, [])]) \<and>
   (\<not> Activable (a_field (ab w)) \<and> \<not> Runnable (a_field (ab w)) \<longrightarrow>
      isOn (on w) \<and>
      threads (on w) = threads w @ [(Wait_isOn, [])] \<and>
      sent (on w) = sent w @ [(WebsocketEventNameAbilityStarted, name (ab w))] \<and>
      activated (on w) = activated w \<and> ran (on w) = ran w \<and>
      panicked (on w) = panicked w)"
  by (simp add: isOn_on threads_on sent_on activated_on ran_on panicked_on)

theorem C6_dispatch_priority_and_inert_witness:
  "activated (on both_shapes) = [True] \<and> ran (on both_shapes) = [] \<and>
   threads (on both_shapes) = [(Wait_isOn, []), (Waiter_Done, [])] \<and>
   isOn (on inert) \<and> threads (on inert) = [(Wait_isOn, [])] \<and>
   sent (on inert) = [(WebsocketEventNameAbilityStarted, ''inert'')] \<and>
   activated (on inert) = [] \<and> ran (on inert) = [] \<and> \<not> panicked (on inert)"
proof -
  have 1: "\<not> isOn both_shapes" "\<not> isOn inert"
    by (simp_all add: both_shapes_def inert_def not_isOn_boot)
  have 2: "a_field (ab both_shapes) = Impl True True False" "activated both_shapes = []"
    "ran both_shapes = []" "threads both_shapes = []"
    by (simp_all add: both_shapes_def boot_def newAbility_def)
  have 3: "a_field (ab inert) = Impl False False False" "activated inert = []"
    "ran inert = []" "threads inert = []" "sent inert = []" "name (ab inert) = ''inert''"
    "\<not> panicked inert"
    by (simp_all add: inert_def boot_def newAbility_def)
  from C6_dispatch_priority_and_inert [OF 1(1)] C6_dispatch_priority_and_inert [OF 1(2)]
  show ?thesis by (simp add: 2 3)
qed

text \<open>
  C7. \<^verbatim>\<open>on\<close> on an Activable ability that is off calls \<^verbatim>\<open>Activate(true)\<close> once, itself,
  and starts the watcher and the waiter. Let the waiter run one statement and the watcher
  two: the waiter is now at the receive on the Done channel of the context \<^verbatim>\<open>on\<close>
  installed, and it cannot move while the ability is on. After \<^verbatim>\<open>off\<close> it can: its
  next statement calls \<^verbatim>\<open>Activate(false)\<close>, and the one after hands nil to the watcher
  and ends the goroutine.
\<close>

theorem C7_activable_waiter:
  assumes "\<not> isOn w" and "Activable (a_field (ab w))" and "\<not> panicked w"
  shows
    "activated (on w) = activated w @ [True] \<and>
     threads (on w) = threads w @ [(Wait_isOn, []), (Waiter_Done, [])] \<and>
     (\<exists>w1. exec [Step (Suc (length (threads w))), Step (length (threads w)),
                  Step (length (threads w))] (on w) = Some w1 \<and>
        activated w1 = activated w @ [True] \<and> isOn w1 \<and>
        threads w1 =
          threads w @ [(Wait_recv (Some (nctx w)), []), (Waiter_recv (nctx w), [])] \<and>
        step (Step (Suc (length (threads w)))) w1 = None \<and>
        (\<exists>w2. exec [Step (Suc (length (threads w))), Step (Suc (length (threads w))),
                     Handoff (Suc (length (threads w))) (length (threads w))] (off w1) =
                 Some w2 \<and>
           activated w2 = activated w @ [True, False] \<and>
           threads w2 =
             threads w @ [(Wait_Err (Some (nctx w)) None, []), (Finished, [])]))"
proof -
  let ?j = "length (threads w)"
  let ?c = "nctx w"
  have th: "threads (on w) = threads w @ [(Wait_isOn, []), (Waiter_Done, [])]"
    using assms by (simp add: threads_on)
  have act: "activated (on w) = activated w @ [True]"
    using assms by (simp add: activated_on)
  have on: "isOn (on w)" using assms by (simp add: isOn_on)
  have abo: "ab (on w) = (ab w)\<lparr>ctx := Some ?c, cancel := Some ?c\<rparr>"
    using assms by (simp add: ab_on)
  have np: "\<not> panicked (on w)" using assms by (simp add: panicked_on)
  define w1 where
    "w1 = (on w)\<lparr>threads :=
             threads w @ [(Wait_recv (Some ?c), []), (Waiter_recv ?c, [])]\<rparr>"
  have e1: "exec [Step (Suc ?j), Step ?j, Step ?j] (on w) = Some w1"
    using th on abo np by (simp add: w1_def put_def nth_append list_update_append)
  have on1: "isOn w1" using on by (simp add: w1_def)
  have live: "\<not> cancelled w1 ?c"
    using on1 abo by (simp add: w1_def isOn_def isOnUnsafe_def)
  have blocked: "step (Step (Suc ?j)) w1 = None"
    using live by (simp add: w1_def nth_append)
  define w2 where
    "w2 = (off w1)\<lparr>activated := activated w @ [True, False],
             threads := threads w @ [(Wait_Err (Some ?c) None, []), (Finished, [])]\<rparr>"
  have ab1: "ab w1 = ab (on w)" by (simp add: w1_def)
  have off1: "off w1 = w1\<lparr>cancelled := (cancelled w1)(?c := True)\<rparr>"
    using on1 abo by (simp add: off_def call_cancel_def panic_def ab1)
  have e2: "exec [Step (Suc ?j), Step (Suc ?j), Handoff (Suc ?j) ?j] (off w1) = Some w2"
    unfolding w2_def off1
    using np act by (simp add: w1_def put_def nth_append list_update_append Activate_def)
  show ?thesis
    using th act e1 on1 blocked e2 by (simp add: w1_def w2_def)
qed

theorem C7_activable_waiter_witness:
  "activated (on hotword) = [True] \<and>
   threads (on hotword) = [(Wait_isOn, []), (Waiter_Done, [])] \<and>
   (\<exists>w1. exec [Step 1, Step 0, Step 0] (on hotword) = Some w1 \<and>
      activated w1 = [True] \<and> isOn w1 \<and>
      threads w1 = [(Wait_recv (Some 0), []), (Waiter_recv 0, [])] \<and>
      step (Step 1) w1 = None \<and>
      (\<exists>w2. exec [Step 1, Step 1, Handoff 1 0] (off w1) = Some w2 \<and>
         activated w2 = [True, False] \<and>
         threads w2 = [(Wait_Err (Some 0) None, []), (Finished, [])]))"
proof -
  have 1: "Activable (a_field (ab hotword))" "\<not> panicked hotword"
    "threads hotword = []" "activated hotword = []" "nctx hotword = 0"
    by (simp_all add: hotword_def boot_def newAbility_def)
  from C7_activable_waiter [OF not_isOn_hotword 1(1) 1(2)]
  show ?thesis by (simp only: 1 list.size append_Nil One_nat_def)
qed

text \<open>
  C8. Whatever the rest of the state is, an ability record that \<^verbatim>\<open>newAbility\<close> has just
  returned is off: \<^verbatim>\<open>isOn\<close> is false before any \<^verbatim>\<open>on\<close>.
\<close>

theorem C8_new_ability_is_off: "\<not> isOn (w\<lparr>ab := newAbility n v opts ch\<rparr>)"
  by (simp add: isOn_def isOnUnsafe_def newAbility_def)

text \<open>
  C9. \<^verbatim>\<open>off\<close> on an ability that is off returns the state it was given: the record with
  all its fields, the contexts, the goroutines and the event log are the same.
\<close>

theorem C9_off_when_off_changes_nothing:
  "\<not> isOn w \<Longrightarrow> off w = w \<and> ab (off w) = ab w \<and> sent (off w) = sent w"
  by (simp add: off_when_off)

theorem C9_off_when_off_changes_nothing_witness:
  "\<not> isOn hotword \<and> off hotword = hotword \<and> ab (off hotword) = ab hotword \<and>
   sent (off hotword) = sent hotword"
  using C9_off_when_off_changes_nothing [of hotword] not_isOn_hotword
  by simp




end
